theory Spec2Isabelle
  imports Main "HOL-Library.Word"
begin

section \<open>Python values\<close>

text \<open>
  The notebook handles values as \<open>json.load\<close>, \<open>json.loads\<close> and
  \<open>response.json()\<close> produce them: \<open>None\<close>, booleans, integers, floats, strings,
  lists and dictionaries (insertion ordered). A float is never inspected except for its
  truth value, so it is kept as its IEEE-754 bit pattern. Characters are HOL's 8-bit
  \<open>char\<close>; the code looks only at \<open>/\<close>, \<open>.\<close>, newlines and white space.
\<close>

type_synonym float64 = "64 word"

datatype json =
    JNull
  | JBool bool
  | JInt int
  | JFloat float64
  | JStr string
  | JArr "json list"
  | JObj "(string \<times> json) list"

text \<open>Python's truth value of an object, as tested by \<open>if image_path:\<close>.\<close>

fun truthy :: "json \<Rightarrow> bool" where
  "truthy JNull = False"
| "truthy (JBool b) = b"
| "truthy (JInt i) = (i \<noteq> 0)"
| "truthy (JFloat w) = (w \<noteq> 0 \<and> w \<noteq> 0x8000000000000000)"
| "truthy (JStr s) = (s \<noteq> [])"
| "truthy (JArr xs) = (xs \<noteq> [])"
| "truthy (JObj kvs) = (kvs \<noteq> [])"

text \<open>\<open>d.get(key, None)\<close> on a dictionary.\<close>

definition dict_get :: "(string \<times> json) list \<Rightarrow> string \<Rightarrow> json" where
  "dict_get kvs key = (case map_of kvs key of None \<Rightarrow> JNull | Some v \<Rightarrow> v)"

section \<open>Exceptions\<close>

text \<open>
  \<open>OSError\<close>: \<open>open(image_path, 'rb')\<close> fails. \<open>RequestException\<close>: \<open>requests.post\<close>
  itself raises (connection refused, timeout, ...); none of these is an \<open>HTTPError\<close>,
  which only \<open>raise_for_status\<close> raises, with the status code of the response.
  \<open>RetryError\<close> is what \<open>tenacity.Retrying\<close> raises when \<open>stop\<close> says stop after a
  failed attempt and \<open>reraise\<close> keeps its default \<open>False\<close>; it wraps the exception of
  the last attempt.
\<close>

datatype exn =
    OSError string
  | RequestException string
  | HTTPError nat
  | RetryError exn
  | JSONDecodeError
  | KeyError string
  | TypeError
  | AttributeError
  | HttpResponseError string

section \<open>The embedding client: \<open>vectorize_image\<close>\<close>

text \<open>
  What one call of \<open>requests.post\<close> does: it raises, or it returns a response with a
  status code and a body; the body is given by what \<open>response.json()\<close> makes of it
  (\<open>None\<close>: the body is not JSON).
\<close>

datatype post_result =
    PostRaises string
  | Response nat "json option"

text \<open>
  The world outside the notebook: which paths \<open>open\<close> can read, and what the embedding
  endpoint answers to its \<open>n\<close>-th request (counted from 0 over the whole run) for the
  file at a path. The number of requests made so far is the state threaded through.
  The request is the same for every attempt on a path (its body is the file, its content
  type is guessed from the path, key and parameters are fixed), so the path stands for it.
  \<open>mimetypes.guess_type\<close> is taken to return: it raises only for a path that does
  not parse as a URL.
\<close>

record world =
  readable :: "string \<Rightarrow> bool"
  endpoint :: "nat \<Rightarrow> string \<Rightarrow> post_result"

definition http_error_status :: "nat \<Rightarrow> bool" where
  "http_error_status s = (400 \<le> s \<and> s < 600)"

text \<open>\<open>Response.raise_for_status\<close>: raises for 4xx and 5xx, returns otherwise.\<close>

definition raise_for_status :: "nat \<Rightarrow> exn option" where
  "raise_for_status s = (if http_error_status s then Some (HTTPError s) else None)"

text \<open>
  The body of \<open>with attempt:\<close>. \<open>Inl\<close> is the exception the attempt manager swallows
  and records, \<open>Inr\<close> the response bound to \<open>response\<close>.
\<close>

definition attempt_body ::
  "world \<Rightarrow> string \<Rightarrow> nat \<Rightarrow> (exn + nat \<times> json option) \<times> nat" where
  "attempt_body w image_path calls =
     (if \<not> readable w image_path then (Inl (OSError image_path), calls)
      else case endpoint w calls image_path of
             PostRaises m \<Rightarrow> (Inl (RequestException m), Suc calls)
           | Response status body \<Rightarrow>
               (if status \<noteq> 200
                then (case raise_for_status status of
                        Some e \<Rightarrow> (Inl e, Suc calls)
                      | None \<Rightarrow> (Inr (status, body), Suc calls))
                else (Inr (status, body), Suc calls)))"

text \<open>\<open>retry_if_exception_type(requests.HTTPError)\<close>\<close>

fun retry_if_HTTPError :: "exn \<Rightarrow> bool" where
  "retry_if_HTTPError (HTTPError s) = True"
| "retry_if_HTTPError e = False"

text \<open>\<open>stop_after_attempt(n)\<close>: stop once the attempt number has reached \<open>n\<close>.\<close>

definition stop_after_attempt :: "nat \<Rightarrow> nat \<Rightarrow> bool" where
  "stop_after_attempt n attempt_number = (n \<le> attempt_number)"

text \<open>
  \<open>for attempt in Retrying(retry=..., wait=..., stop=...)\<close>, attempt numbers from 1.
  After an attempt that raised: an exception the retry predicate rejects is re-raised
  as it is; otherwise, if \<open>stop\<close> holds, \<open>RetryError\<close> is raised, else the loop sleeps
  (\<open>wait_random_exponential\<close>, not modelled) and attempts again.
\<close>

function retrying ::
  "nat \<Rightarrow> world \<Rightarrow> string \<Rightarrow> nat \<Rightarrow> nat \<Rightarrow> (exn + nat \<times> json option) \<times> nat" where
  "retrying max_attempts w image_path attempt_number calls =
     (let (outcome, calls') = attempt_body w image_path calls in
      case outcome of
        Inr response \<Rightarrow> (Inr response, calls')
      | Inl e \<Rightarrow>
          if \<not> retry_if_HTTPError e then (Inl e, calls')
          else if stop_after_attempt max_attempts attempt_number
               then (Inl (RetryError e), calls')
          else retrying max_attempts w image_path (Suc attempt_number) calls')"
  by pat_completeness auto

termination
  by (relation "measure (\<lambda>(m, w, p, n, c). m - n)")
     (auto simp: stop_after_attempt_def)

declare retrying.simps [simp del]

text \<open>\<open>response.json()["vector"]\<close>, after the loop.\<close>

definition vector_of_body :: "json option \<Rightarrow> exn + json" where
  "vector_of_body body =
     (case body of
        None \<Rightarrow> Inl JSONDecodeError
      | Some (JObj kvs) \<Rightarrow>
          (case map_of kvs ''vector'' of
             None \<Rightarrow> Inl (KeyError ''vector'')
           | Some v \<Rightarrow> Inr v)
      | Some _ \<Rightarrow> Inl TypeError)"

definition vectorize_image :: "world \<Rightarrow> string \<Rightarrow> nat \<Rightarrow> (exn + json) \<times> nat" where
  "vectorize_image w image_path calls =
     (case retrying 15 w image_path 1 calls of
        (Inl e, calls') \<Rightarrow> (Inl e, calls')
      | (Inr (status, body), calls') \<Rightarrow> (vector_of_body body, calls'))"

section \<open>Paths and formatting\<close>

text \<open>
  \<open>os.path\<close> is taken to be \<open>posixpath\<close>. \<open>join\<close> is its two-argument case.
\<close>

definition path_join :: "string \<Rightarrow> string \<Rightarrow> string" where
  "path_join a b =
     (if b \<noteq> [] \<and> hd b = CHR ''/'' then b
      else if a = [] \<or> last a = CHR ''/'' then a @ b
      else a @ ''/'' @ b)"

text \<open>\<open>str.rfind\<close> for a single character: the last index of it, or \<open>-1\<close>.\<close>

definition rfind :: "string \<Rightarrow> char \<Rightarrow> int" where
  "rfind p c =
     (if c \<in> set p
      then int (length p) - 1 - int (length (takeWhile (\<lambda>x. x \<noteq> c) (rev p)))
      else - 1)"

text \<open>\<open>basename\<close>: \<open>i = p.rfind('/') + 1; return p[i:]\<close>\<close>

definition basename :: "string \<Rightarrow> string" where
  "basename p = drop (nat (rfind p CHR ''/'' + 1)) p"

text \<open>
  \<open>splitext\<close> (\<open>genericpath._splitext\<close> with separator \<open>/\<close> and extension separator
  \<open>.\<close>): the extension starts at the last dot, provided that dot comes after the last
  separator and some character between the two is not a dot.
\<close>

definition splitext :: "string \<Rightarrow> string \<times> string" where
  "splitext p =
     (let sepIndex = rfind p CHR ''/'';
          dotIndex = rfind p CHR ''.''
      in if sepIndex < dotIndex
            \<and> list_ex (\<lambda>filenameIndex. p ! filenameIndex \<noteq> CHR ''.'')
                 [nat (sepIndex + 1) ..< nat dotIndex]
         then (take (nat dotIndex) p, drop (nat dotIndex) p)
         else (p, []))"

text \<open>\<open>f'{idx}'\<close> for the non-negative index that \<open>enumerate\<close> yields.\<close>

definition digit_char :: "nat \<Rightarrow> char" where
  "digit_char d = char_of (48 + d)"

fun decimal :: "nat \<Rightarrow> string" where
  "decimal n = (if n < 10 then [digit_char n] else decimal (n div 10) @ [digit_char (n mod 10)])"

declare decimal.simps [simp del]

section \<open>The batch materializer: the cell that embeds the images\<close>

definition apples_image_directory :: string where
  "apples_image_directory = ''../../data/images/apples''"

text \<open>
  The state of the cell: the content of \<open>output.jsonl\<close>, what has been printed by the
  \<open>except\<close> branch (index and exception), and the number of requests sent to the
  endpoint so far.
\<close>

record batch =
  out_file :: string
  printed :: "(nat \<times> exn) list"
  calls :: nat

text \<open>\<open>open(output_json_file, 'w')\<close> truncates the file.\<close>

definition open_w :: "string \<Rightarrow> string" where
  "open_w old_content = []"

definition result_record :: "nat \<Rightarrow> json \<Rightarrow> string \<Rightarrow> json" where
  "result_record idx vector filename =
     JObj [(''id'', JStr (decimal idx)),
           (''image_vector'', vector),
           (''description'', JStr filename)]"

text \<open>
  One round of the loop. \<open>json.dumps\<close> is the library's serialiser and is a parameter.
  The first component of the result is the exception that leaves the loop, if any:
  \<open>AttributeError\<close> when the item is not a dictionary (\<open>.get\<close>), \<open>TypeError\<close> when
  \<open>image_path\<close> is true but not a string: then \<open>os.path.join\<close> raises inside the
  \<open>try\<close>, which is caught and printed, and \<open>os.path.basename\<close> raises after it.
\<close>

definition process_item ::
  "(json \<Rightarrow> string) \<Rightarrow> world \<Rightarrow> nat \<Rightarrow> json \<Rightarrow> batch \<Rightarrow> exn option \<times> batch" where
  "process_item dumps w idx image_data st =
     (case image_data of
        JObj kvs \<Rightarrow>
          (let image_path = dict_get kvs ''image_path'' in
           if truthy image_path then
             (case image_path of
                JStr p \<Rightarrow>
                  (let (r, calls') = vectorize_image w (path_join apples_image_directory p) (calls st);
                       (vector, printed') =
                          (case r of
                             Inl e \<Rightarrow> (JNull, printed st @ [(idx, e)])
                           | Inr v \<Rightarrow> (v, printed st));
                       filename = fst (splitext (basename p));
                       result = result_record idx vector filename
                   in (None, \<lparr>out_file = out_file st @ dumps result @ [CHR 0x0A],
                              printed = printed', calls = calls'\<rparr>))
              | _ \<Rightarrow> (Some TypeError, st\<lparr>printed := printed st @ [(idx, TypeError)]\<rparr>))
           else (None, st))
      | _ \<Rightarrow> (Some AttributeError, st))"

text \<open>\<open>for idx, image_data in enumerate(images)\<close>, from index \<open>idx\<close> on.\<close>

fun batch_loop ::
  "(json \<Rightarrow> string) \<Rightarrow> world \<Rightarrow> nat \<Rightarrow> json list \<Rightarrow> batch \<Rightarrow> exn option \<times> batch" where
  "batch_loop dumps w idx [] st = (None, st)"
| "batch_loop dumps w idx (image_data # images) st =
     (case process_item dumps w idx image_data st of
        (Some e, st') \<Rightarrow> (Some e, st')
      | (None, st') \<Rightarrow> batch_loop dumps w (Suc idx) images st')"

text \<open>
  The whole cell, for a manifest that is a JSON array: the file is opened for writing,
  whatever it held, and the loop runs from index 0. \<open>None\<close> in the first component: the
  cell ran to its end.
\<close>

definition embed_images ::
  "(json \<Rightarrow> string) \<Rightarrow> world \<Rightarrow> json list \<Rightarrow> string \<Rightarrow> nat \<Rightarrow> exn option \<times> batch" where
  "embed_images dumps w images old_content calls0 =
     batch_loop dumps w 0 images
       \<lparr>out_file = open_w old_content, printed = [], calls = calls0\<rparr>"

section \<open>Loading the store and pushing it to the index\<close>

text \<open>
  Reading in text mode with universal newlines: \<open>\r\n\<close> and \<open>\r\<close> arrive as \<open>\n\<close>.
\<close>

fun universal_newlines :: "string \<Rightarrow> string" where
  "universal_newlines [] = []"
| "universal_newlines (c # cs) =
     (if c = CHR 0x0D
      then (case cs of
              d # ds \<Rightarrow> if d = CHR 0x0A then CHR 0x0A # universal_newlines ds
                        else CHR 0x0A # universal_newlines cs
            | [] \<Rightarrow> [CHR 0x0A])
      else c # universal_newlines cs)"

text \<open>
  \<open>for line in file\<close>: each line with its newline; a last line without one is
  yielded too. The accumulator is the line read so far.
\<close>

fun split_lines :: "string \<Rightarrow> string \<Rightarrow> string list" where
  "split_lines acc [] = (if acc = [] then [] else [acc])"
| "split_lines acc (c # cs) =
     (if c = CHR 0x0A then (acc @ [c]) # split_lines [] cs
      else split_lines (acc @ [c]) cs)"

definition file_lines :: "string \<Rightarrow> string list" where
  "file_lines content = split_lines [] (universal_newlines content)"

text \<open>\<open>str.strip()\<close>, for the white space among the first 256 code points.\<close>

definition isspace :: "char \<Rightarrow> bool" where
  "isspace c = (of_char c \<in> set [9, 10, 11, 12, 13, 28, 29, 30, 31, 32, 133, 160 :: nat])"

definition strip :: "string \<Rightarrow> string" where
  "strip s = rev (dropWhile isspace (rev (dropWhile isspace s)))"

text \<open>
  The loop that fills \<open>data\<close>. \<open>json.loads\<close> is the library's parser and is a
  parameter: \<open>None\<close> stands for its \<open>JSONDecodeError\<close>, which nothing catches.
\<close>

fun load_loop :: "(string \<Rightarrow> json option) \<Rightarrow> string list \<Rightarrow> json list \<Rightarrow> exn + json list" where
  "load_loop loads [] data = Inr data"
| "load_loop loads (line # lines) data =
     (case loads (strip line) of
        None \<Rightarrow> Inl JSONDecodeError
      | Some json_data \<Rightarrow> load_loop loads lines (data @ [json_data]))"

text \<open>
  The whole cell. \<open>upload_documents\<close> is the search client's call, a parameter: it
  raises or returns a key and a status code per document. The second component of the
  result is the list of the document batches handed to it.
\<close>

definition push_to_index ::
  "(string \<Rightarrow> json option) \<Rightarrow> (json list \<Rightarrow> exn + (string \<times> nat) list) \<Rightarrow> string
     \<Rightarrow> (exn + (string \<times> nat) list) \<times> json list list" where
  "push_to_index loads upload_documents content =
     (case load_loop loads (file_lines content) [] of
        Inl e \<Rightarrow> (Inl e, [])
      | Inr data \<Rightarrow> (upload_documents data, [data]))"

section \<open>The serialiser: \<open>json.dumps\<close>\<close>

text \<open>
  \<open>json.dumps\<close> with its default arguments, as the batch cell calls it: items are
  separated by a comma and a space, a key is followed by a colon and a space, and
  strings are written in ASCII (\<open>ensure_ascii\<close>): backslash and double quote are
  escaped, the control characters have their short escapes or \<open>\u00xx\<close>, and so has
  every character after \<open>~\<close>. The text of a float (\<open>float.__repr__\<close>, or \<open>NaN\<close> and
  \<open>Infinity\<close>) is a parameter.
\<close>

fun join_with :: "string \<Rightarrow> string list \<Rightarrow> string" where
  "join_with sep [] = []"
| "join_with sep [x] = x"
| "join_with sep (x # y # ys) = x @ sep @ join_with sep (y # ys)"

definition hex_digit :: "nat \<Rightarrow> char" where
  "hex_digit d = (if d < 10 then char_of (48 + d) else char_of (87 + d))"

definition escape_char :: "char \<Rightarrow> string" where
  "escape_char c =
     (let n = (of_char c :: nat) in
      if n = 0x5C then [CHR 0x5C, CHR 0x5C]
      else if n = 0x22 then [CHR 0x5C, CHR 0x22]
      else if n = 8 then [CHR 0x5C, CHR ''b'']
      else if n = 12 then [CHR 0x5C, CHR ''f'']
      else if n = 10 then [CHR 0x5C, CHR ''n'']
      else if n = 13 then [CHR 0x5C, CHR ''r'']
      else if n = 9 then [CHR 0x5C, CHR ''t'']
      else if n < 0x20 \<or> 0x7E < n
           then [CHR 0x5C, CHR ''u'', CHR ''0'', CHR ''0'', hex_digit (n div 16), hex_digit (n mod 16)]
      else [c])"

definition encode_string :: "string \<Rightarrow> string" where
  "encode_string s = [CHR 0x22] @ concat (map escape_char s) @ [CHR 0x22]"

definition int_repr :: "int \<Rightarrow> string" where
  "int_repr i = (if i < 0 then ''-'' @ decimal (nat (- i)) else decimal (nat i))"

fun json_dumps :: "(float64 \<Rightarrow> string) \<Rightarrow> json \<Rightarrow> string" where
  "json_dumps float_repr JNull = ''null''"
| "json_dumps float_repr (JBool b) = (if b then ''true'' else ''false'')"
| "json_dumps float_repr (JInt i) = int_repr i"
| "json_dumps float_repr (JFloat x) = float_repr x"
| "json_dumps float_repr (JStr s) = encode_string s"
| "json_dumps float_repr (JArr xs) =
     ''['' @ join_with '', '' (map (json_dumps float_repr) xs) @ '']''"
| "json_dumps float_repr (JObj kvs) =
     ''{'' @ join_with '', ''
              (map (\<lambda>(k, v). encode_string k @ '': '' @ json_dumps float_repr v) kvs) @ ''}''"

section \<open>Notions used to state the properties\<close>


text \<open>The locator of a manifest item: its \<open>image_path\<close>, when that is a non-empty string.\<close>

definition locator :: "json \<Rightarrow> string option" where
  "locator image_data =
     (case image_data of
        JObj kvs \<Rightarrow>
          (case dict_get kvs ''image_path'' of
             JStr p \<Rightarrow> if p = [] then None else Some p
           | _ \<Rightarrow> None)
      | _ \<Rightarrow> None)"

text \<open>The items of a manifest that have a locator, each with its index, counted from \<open>idx\<close>.\<close>

definition kept_items :: "nat \<Rightarrow> json list \<Rightarrow> (nat \<times> string) list" where
  "kept_items idx images =
     List.map_filter (\<lambda>(i, image_data). map_option (Pair i) (locator image_data))
       (enumerate idx images)"

text \<open>The record of the item at index \<open>i\<close> with locator \<open>p\<close>, given its vector.\<close>

definition record_of :: "nat \<times> string \<Rightarrow> json \<Rightarrow> json" where
  "record_of ip vector = result_record (fst ip) vector (fst (splitext (basename (snd ip))))"

text \<open>The text of a store that holds the given records, one per line.\<close>

definition jsonl :: "(json \<Rightarrow> string) \<Rightarrow> json list \<Rightarrow> string" where
  "jsonl dumps records = concat (map (\<lambda>r. dumps r @ [CHR 0x0A]) records)"

text \<open>Reading a string of decimal digits as a number.\<close>

definition read_decimal :: "string \<Rightarrow> nat" where
  "read_decimal s = foldl (\<lambda>n c. 10 * n + (of_char c - 48)) 0 s"

section \<open>Test doubles\<close>

text \<open>
  A serialiser for the examples, with the default separators of \<open>json.dumps\<close>
  (\<open>", "\<close> between items, \<open>": "\<close> after a key). Strings are written without
  escapes and floats are not rendered, so it writes what \<open>json.dumps\<close> writes for
  the values of the examples: integers, plain ASCII strings, null, lists, dictionaries.
\<close>

fun test_dumps :: "json \<Rightarrow> string" where
  "test_dumps JNull = ''null''"
| "test_dumps (JBool b) = (if b then ''true'' else ''false'')"
| "test_dumps (JInt i) = (if i < 0 then ''-'' @ decimal (nat (- i)) else decimal (nat i))"
| "test_dumps (JFloat w) = ''float''"
| "test_dumps (JStr s) = [CHR 0x22] @ s @ [CHR 0x22]"
| "test_dumps (JArr xs) = ''['' @ join_with '', '' (map test_dumps xs) @ '']''"
| "test_dumps (JObj kvs) =
     ''{'' @ join_with '', ''
              (map (\<lambda>(k, v). [CHR 0x22] @ k @ [CHR 0x22] @ '': '' @ test_dumps v) kvs) @ ''}''"

text \<open>
  A parser for the examples: it reads back what \<open>test_dumps\<close> wrote for three
  documents and rejects every other text.
\<close>

definition test_loads :: "string \<Rightarrow> json option" where
  "test_loads s =
     List.find (\<lambda>r. test_dumps r = s)
       [JObj [],
        result_record 0 JNull ''a'',
        result_record 1 (JArr [JInt 0, JInt 1]) ''b'']"

text \<open>An index that accepts every document with status 201 and an empty key.\<close>

definition test_upload :: "json list \<Rightarrow> exn + (string \<times> nat) list" where
  "test_upload docs = Inr (map (\<lambda>d. ([], 201)) docs)"



text \<open>
  The embedder of the end-to-end example: \<open>[1, 0]\<close> for \<open>a.jpg\<close>, \<open>[0, 1]\<close> for
  \<open>b.jpg\<close>, status 400 for every other file; \<open>missing.jpg\<close> cannot be opened.
\<close>

definition mock_embedder :: world where
  "mock_embedder =
     \<lparr>readable = (\<lambda>p. p \<noteq> ''../../data/images/apples/missing.jpg''),
      endpoint = (\<lambda>n p.
         if p = ''../../data/images/apples/a.jpg''
         then Response 200 (Some (JObj [(''vector'', JArr [JInt 1, JInt 0])]))
         else if p = ''../../data/images/apples/b.jpg''
         then Response 200 (Some (JObj [(''vector'', JArr [JInt 0, JInt 1])]))
         else Response 400 None)\<rparr>"

definition item :: "string \<Rightarrow> json" where
  "item p = JObj [(''image_path'', JStr p)]"

definition sample_manifest :: "json list" where
  "sample_manifest = [item ''a.jpg'', JObj [], item ''missing.jpg'', item ''b.jpg'']"

definition five_apples :: "json list" where
  "five_apples = [item ''a.jpg'', item ''b.jpg'', item ''c.jpg'', item ''a.jpg'', item ''b.jpg'']"

definition two_records :: string where
  "two_records =
     test_dumps (result_record 0 JNull ''a'') @ [CHR 0x0A]
     @ test_dumps (result_record 1 (JArr [JInt 0, JInt 1]) ''b'') @ [CHR 0x0A]"

definition corrupt_store :: string where
  "corrupt_store =
     test_dumps (result_record 0 JNull ''a'') @ [CHR 0x0A]
     @ ''not json'' @ [CHR 0x0A]
     @ test_dumps (result_record 1 (JArr [JInt 0, JInt 1]) ''b'') @ [CHR 0x0A]"


text \<open>A float rendering for examples that hold no float.\<close>

definition no_floats :: "float64 \<Rightarrow> string" where
  "no_floats x = []"

definition five_with_gap :: "json list" where
  "five_with_gap = [item ''a.jpg'', item ''b.jpg'', item ''c.jpg'', JObj [], item ''b.jpg'']"

section \<open>Properties of the embedding client\<close>


























section \<open>Properties of the batch materializer\<close>

lemma kept_items_Nil: "kept_items idx [] = []"
  by (simp add: kept_items_def List.map_filter_simps)

lemma kept_items_Cons:
  "kept_items idx (x # xs) =
     (case locator x of
        None \<Rightarrow> kept_items (Suc idx) xs
      | Some p \<Rightarrow> (idx, p) # kept_items (Suc idx) xs)"
  by (simp add: kept_items_def List.map_filter_simps split: option.splits)

lemma jsonl_Nil: "jsonl dumps [] = []"
  by (simp add: jsonl_def)

lemma jsonl_Cons: "jsonl dumps (r # rs) = dumps r @ [CHR 0x0A] @ jsonl dumps rs"
  by (simp add: jsonl_def)

lemma jsonl_append: "jsonl dumps (rs @ rs') = jsonl dumps rs @ jsonl dumps rs'"
  by (simp add: jsonl_def)

lemma process_item_locator:
  assumes "locator x = Some p"
  shows "process_item dumps w idx x st =
     (None,
      \<lparr>out_file = out_file st
          @ dumps (record_of (idx, p)
                    (case fst (vectorize_image w (path_join apples_image_directory p) (calls st)) of
                       Inl e \<Rightarrow> JNull | Inr v \<Rightarrow> v))
          @ [CHR 0x0A],
       printed = printed st
          @ (case fst (vectorize_image w (path_join apples_image_directory p) (calls st)) of
               Inl e \<Rightarrow> [(idx, e)] | Inr v \<Rightarrow> []),
       calls = snd (vectorize_image w (path_join apples_image_directory p) (calls st))\<rparr>)"
  using assms
  by (auto simp: locator_def process_item_def record_of_def Let_def
      split: json.splits if_splits prod.splits sum.splits)

lemma process_item_skip:
  assumes "x = JObj kvs" "\<not> truthy (dict_get kvs ''image_path'')"
  shows "process_item dumps w idx x st = (None, st)"
  using assms by (simp add: process_item_def)

lemma process_item_completes:
  assumes "fst (process_item dumps w idx x st) = None"
  shows "(\<exists>p. locator x = Some p)
       \<or> (locator x = None \<and> (\<exists>kvs. x = JObj kvs \<and> \<not> truthy (dict_get kvs ''image_path'')))"
  using assms
  by (auto simp: locator_def process_item_def Let_def
      split: json.splits if_splits prod.splits sum.splits)

lemma batch_loop_completed:
  "batch_loop dumps w idx xs st = (None, st') \<Longrightarrow>
   \<exists>vs. length vs = length (kept_items idx xs)
      \<and> out_file st' = out_file st @ jsonl dumps (map2 record_of (kept_items idx xs) vs)"
proof (induction xs arbitrary: idx st)
  case Nil
  then show ?case by (simp add: kept_items_Nil jsonl_Nil)
next
  case (Cons x xs)
  obtain r st1 where step: "process_item dumps w idx x st = (r, st1)"
    by (cases "process_item dumps w idx x st")
  with Cons.prems have r: "r = None" and rest: "batch_loop dumps w (Suc idx) xs st1 = (None, st')"
    by (auto split: option.splits)
  from Cons.IH [OF rest] obtain vs where vs: "length vs = length (kept_items (Suc idx) xs)"
    "out_file st' = out_file st1 @ jsonl dumps (map2 record_of (kept_items (Suc idx) xs) vs)"
    by blast
  from step r have "fst (process_item dumps w idx x st) = None" by simp
  from process_item_completes [OF this] show ?case
  proof
    assume "\<exists>p. locator x = Some p"
    then obtain p where p: "locator x = Some p" ..
    define v where "v = (case fst (vectorize_image w (path_join apples_image_directory p) (calls st)) of
                       Inl e \<Rightarrow> JNull | Inr v \<Rightarrow> v)"
    have "out_file st1 = out_file st @ dumps (record_of (idx, p) v) @ [CHR 0x0A]"
      using step process_item_locator [OF p, of dumps w idx st] by (auto simp: v_def)
    then have "length (v # vs) = length (kept_items idx (x # xs))
        \<and> out_file st' = out_file st @ jsonl dumps (map2 record_of (kept_items idx (x # xs)) (v # vs))"
      using vs p by (simp add: kept_items_Cons jsonl_Cons)
    then show ?thesis by blast
  next
    assume a: "locator x = None \<and> (\<exists>kvs. x = JObj kvs \<and> \<not> truthy (dict_get kvs ''image_path''))"
    then have "st1 = st" using step process_item_skip by fastforce
    then show ?thesis using vs a by (auto simp: kept_items_Cons)
  qed
qed

lemma process_item_appends:
  "\<exists>rs. length rs \<le> 1 \<and> out_file (snd (process_item dumps w idx x st)) = out_file st @ jsonl dumps rs"
proof (cases "locator x")
  case (Some p)
  show ?thesis
    by (rule exI [of _ "[record_of (idx, p)
                    (case fst (vectorize_image w (path_join apples_image_directory p) (calls st)) of
                       Inl e \<Rightarrow> JNull | Inr v \<Rightarrow> v)]"])
       (simp add: process_item_locator [OF Some] jsonl_Cons jsonl_Nil)
next
  case None
  then have "out_file (snd (process_item dumps w idx x st)) = out_file st"
    by (auto simp: locator_def process_item_def Let_def
        split: json.splits if_splits prod.splits sum.splits)
  then show ?thesis by (intro exI [of _ "[]"]) (simp add: jsonl_Nil)
qed

lemma batch_loop_appends:
  "\<exists>rs. out_file (snd (batch_loop dumps w idx xs st)) = out_file st @ jsonl dumps rs"
proof (induction xs arbitrary: idx st)
  case Nil
  show ?case by (intro exI [of _ "[]"]) (simp add: jsonl_Nil)
next
  case (Cons x xs)
  obtain r st1 where step: "process_item dumps w idx x st = (r, st1)"
    by (cases "process_item dumps w idx x st")
  obtain rs1 where rs1: "out_file st1 = out_file st @ jsonl dumps rs1"
    using process_item_appends [of dumps w idx x st] step by auto
  show ?case
  proof (cases r)
    case (Some e)
    then show ?thesis using step rs1 by auto
  next
    case None
    obtain rs2 where "out_file (snd (batch_loop dumps w (Suc idx) xs st1)) = out_file st1 @ jsonl dumps rs2"
      using Cons.IH by blast
    then have "out_file (snd (batch_loop dumps w idx (x # xs) st)) = out_file st @ jsonl dumps (rs1 @ rs2)"
      using step None rs1 by (simp add: jsonl_append)
    then show ?thesis by blast
  qed
qed

lemma kept_items_bounds:
  "(i, p) \<in> set (kept_items idx xs) \<Longrightarrow> idx \<le> i \<and> i < idx + length xs \<and> locator (xs ! (i - idx)) = Some p"
proof (induction xs arbitrary: idx)
  case Nil
  then show ?case by (simp add: kept_items_Nil)
next
  case (Cons x xs)
  show ?case
  proof (cases "(i, p) \<in> set (kept_items (Suc idx) xs)")
    case True
    from Cons.IH [OF True] show ?thesis by (auto simp: Suc_diff_le)
  next
    case False
    with Cons.prems have "i = idx \<and> locator x = Some p"
      by (auto simp: kept_items_Cons split: option.splits)
    then show ?thesis by simp
  qed
qed

lemma kept_items_indices:
  "map fst (kept_items idx xs) = filter (\<lambda>i. locator (xs ! (i - idx)) \<noteq> None) [idx ..< idx + length xs]"
proof (induction xs arbitrary: idx)
  case Nil
  then show ?case by (simp add: kept_items_Nil)
next
  case (Cons x xs)
  have shift: "(x # xs) ! (i - idx) = xs ! (i - Suc idx)" if "Suc idx \<le> i" for i
  proof -
    from that have "i - idx = Suc (i - Suc idx)" by arith
    then show ?thesis by simp
  qed
  have tl: "filter (\<lambda>i. locator ((x # xs) ! (i - idx)) \<noteq> None) [Suc idx ..< Suc idx + length xs]
      = filter (\<lambda>i. locator (xs ! (i - Suc idx)) \<noteq> None) [Suc idx ..< Suc idx + length xs]"
  proof (rule filter_cong [OF refl])
    fix i assume "i \<in> set [Suc idx ..< Suc idx + length xs]"
    then have "Suc idx \<le> i" by (simp only: set_upt atLeastLessThan_iff)
    then show "(locator ((x # xs) ! (i - idx)) \<noteq> None) = (locator (xs ! (i - Suc idx)) \<noteq> None)"
      by (simp add: shift)
  qed
  have "[idx ..< Suc (idx + length xs)] = idx # [Suc idx ..< Suc (idx + length xs)]"
    by (rule upt_conv_Cons) simp
  then have upt: "[idx ..< idx + length (x # xs)] = idx # [Suc idx ..< Suc idx + length xs]"
    by (simp only: length_Cons add_Suc_right add_Suc)
  show ?case
    unfolding upt using Cons.IH [of "Suc idx"] tl
    by (simp add: kept_items_Cons split: option.splits)
qed

lemma kept_items_length_le: "length (kept_items idx xs) \<le> length xs"
  by (induction xs arbitrary: idx) (auto simp: kept_items_Nil kept_items_Cons le_SucI split: option.splits)

lemma kept_items_all:
  assumes "\<forall>x\<in>set xs. locator x \<noteq> None"
  shows "map fst (kept_items idx xs) = [idx ..< idx + length xs]"
proof -
  have "\<forall>i\<in>set [idx ..< idx + length xs]. locator (xs ! (i - idx)) \<noteq> None"
    using assms by (auto simp: less_diff_conv2)
  then show ?thesis by (simp add: kept_items_indices)
qed

lemma kept_items_increasing: "sorted_wrt (<) (map fst (kept_items idx xs))"
  by (simp add: kept_items_indices sorted_wrt_filter)

lemma kept_items_distinct: "distinct (map fst (kept_items idx xs))"
  by (simp add: kept_items_indices)

lemma read_decimal_snoc: "read_decimal (s @ [c]) = 10 * read_decimal s + (of_char c - 48)"
  by (simp add: read_decimal_def)

lemma of_char_digit: "d < 10 \<Longrightarrow> of_char (digit_char d) = 48 + d"
  by (simp add: digit_char_def)

lemma read_decimal_decimal: "read_decimal (decimal n) = n"
proof (induction n rule: decimal.induct)
  case (1 n)
  show ?case
  proof (cases "n < 10")
    case True
    then show ?thesis by (subst decimal.simps) (simp add: read_decimal_def of_char_digit)
  next
    case False
    then have "read_decimal (decimal n) = 10 * read_decimal (decimal (n div 10)) + n mod 10"
      by (subst decimal.simps) (simp add: read_decimal_snoc of_char_digit)
    then show ?thesis using "1.IH" False by simp
  qed
qed

lemma decimal_inj: "decimal m = decimal n \<Longrightarrow> m = n"
  by (metis read_decimal_decimal)

lemma digit_chars: "map digit_char [0, 1, 2, 3, 4, 5, 6, 7, 8, 9] = ''0123456789''"
  by code_simp

lemma decimal_digits: "c \<in> set (decimal n) \<Longrightarrow> c \<in> set ''0123456789''"
proof (induction n rule: decimal.induct)
  case (1 n)
  have digit: "digit_char d \<in> set ''0123456789''" if "d < 10" for d
  proof -
    from that have "d \<in> set [0, 1, 2, 3, 4, 5, 6, 7, 8, 9]" by auto
    then have "digit_char d \<in> set (map digit_char [0, 1, 2, 3, 4, 5, 6, 7, 8, 9])"
      unfolding set_map by (rule imageI)
    then show ?thesis by (simp only: digit_chars)
  qed
  show ?case
  proof (cases "n < 10")
    case True
    with "1.prems" have "c = digit_char n" by (subst (asm) decimal.simps) simp
    with digit [OF True] show ?thesis by simp
  next
    case False
    with "1.prems" have "c \<in> set (decimal (n div 10)) \<or> c = digit_char (n mod 10)"
      by (subst (asm) decimal.simps) auto
    then show ?thesis using "1.IH" False digit [of "n mod 10"] by auto
  qed
qed

lemma rfind_absent: "c \<notin> set p \<Longrightarrow> rfind p c = - 1"
  by (simp add: rfind_def)

lemma rfind_last: "c \<notin> set b \<Longrightarrow> rfind (a @ c # b) c = int (length a)"
proof -
  assume "c \<notin> set b"
  then have "takeWhile (\<lambda>x. x \<noteq> c) (rev b @ c # rev a) = rev b"
    by (simp add: takeWhile_append)
  then show ?thesis by (simp add: rfind_def)
qed

lemma basename_plain: "CHR ''/'' \<notin> set f \<Longrightarrow> basename f = f"
  by (simp add: basename_def rfind_absent)

lemma basename_in_directory: "CHR ''/'' \<notin> set f \<Longrightarrow> basename (d @ ''/'' @ f) = f"
proof -
  assume "CHR ''/'' \<notin> set f"
  then have "rfind (d @ CHR ''/'' # f) CHR ''/'' = int (length d)"
    by (rule rfind_last)
  moreover have "nat (int (length d) + 1) = Suc (length d)" by simp
  ultimately show ?thesis by (simp add: basename_def)
qed

lemma splitext_extension:
  assumes "CHR ''/'' \<notin> set s" "CHR ''/'' \<notin> set e" "CHR ''.'' \<notin> set e"
    and "\<exists>c\<in>set s. c \<noteq> CHR ''.''"
  shows "splitext (s @ ''.'' @ e) = (s, ''.'' @ e)"
proof -
  have sep: "rfind (s @ CHR ''.'' # e) CHR ''/'' = - 1"
    using assms(1,2) by (simp add: rfind_absent)
  have dot: "rfind (s @ CHR ''.'' # e) CHR ''.'' = int (length s)"
    using assms(3) by (rule rfind_last)
  from assms(4) obtain i where i: "i < length s" "s ! i \<noteq> CHR ''.''"
    by (auto simp: in_set_conv_nth)
  then have "list_ex (\<lambda>k. (s @ CHR ''.'' # e) ! k \<noteq> CHR ''.'') [0 ..< length s]"
    by (auto simp: list_ex_iff nth_append intro!: bexI [of _ i])
  then show ?thesis by (simp add: splitext_def Let_def sep dot)
qed

lemma rfind_ge: "- 1 \<le> rfind p c"
proof (cases "c \<in> set p")
  case True
  then have "takeWhile (\<lambda>x. x \<noteq> c) (rev p) \<noteq> rev p"
    by (simp add: takeWhile_eq_all_conv)
  moreover have "length (takeWhile (\<lambda>x. x \<noteq> c) (rev p)) \<le> length (rev p)"
    by (rule length_takeWhile_le)
  ultimately have "length (takeWhile (\<lambda>x. x \<noteq> c) (rev p)) < length p"
    by (metis length_rev le_neq_implies_less takeWhile_eq_take take_all_iff order_refl)
  then show ?thesis using True by (simp add: rfind_def)
next
  case False
  then show ?thesis by (simp add: rfind_def)
qed

lemma splitext_no_dot: "CHR ''.'' \<notin> set f \<Longrightarrow> splitext f = (f, [])"
  using rfind_ge [of f "CHR ''/''"] by (simp add: splitext_def Let_def rfind_absent)

lemma embed_images_completed:
  assumes "fst (embed_images dumps w images old c0) = None"
  shows "\<exists>vs. length vs = length (kept_items 0 images)
      \<and> out_file (snd (embed_images dumps w images old c0))
          = jsonl dumps (map2 record_of (kept_items 0 images) vs)"
proof -
  obtain st where st: "embed_images dumps w images old c0 = (None, st)"
    using assms by (cases "embed_images dumps w images old c0") simp
  then have "batch_loop dumps w 0 images \<lparr>out_file = open_w old, printed = [], calls = c0\<rparr> = (None, st)"
    by (simp add: embed_images_def)
  from batch_loop_completed [OF this] show ?thesis
    using st by (simp add: open_w_def)
qed

text \<open>
  Claim C1, amended. A run of the cell that reaches its end writes exactly one record
  for every item of the manifest that has a locator (an \<open>image_path\<close> that is a
  non-empty string), in manifest order and whatever the embedding calls did; the
  indices of these records are the indices of those items, in increasing order. So a
  manifest of size \<open>N\<close> yields \<open>N\<close> records when every item has a locator.
\<close>

theorem one_record_per_located_item:
  assumes "fst (embed_images dumps w images old c0) = None"
  shows "\<exists>vs. length vs = length (kept_items 0 images)
      \<and> out_file (snd (embed_images dumps w images old c0))
          = jsonl dumps (map2 record_of (kept_items 0 images) vs)
      \<and> map fst (kept_items 0 images)
          = filter (\<lambda>i. locator (images ! i) \<noteq> None) [0 ..< length images]
      \<and> ((\<forall>x\<in>set images. locator x \<noteq> None) \<longrightarrow> length vs = length images)"
proof -
  from embed_images_completed [OF assms] obtain vs where
    vs: "length vs = length (kept_items 0 images)"
      "out_file (snd (embed_images dumps w images old c0))
          = jsonl dumps (map2 record_of (kept_items 0 images) vs)"
    by blast
  have idx: "map fst (kept_items 0 images)
          = filter (\<lambda>i. locator (images ! i) \<noteq> None) [0 ..< length images]"
    using kept_items_indices [of 0 images] by simp
  have "length vs = length images" if "\<forall>x\<in>set images. locator x \<noteq> None"
  proof -
    have "length (map fst (kept_items 0 images)) = length [0 ..< 0 + length images]"
      using kept_items_all [OF that, of 0] by simp
    then show ?thesis using vs(1) by simp
  qed
  with vs idx show ?thesis by blast
qed

text \<open>
  The claim as stated fails: the manifest of the single item \<open>{}\<close> has size 1, and
  the run ends normally with an empty store.
\<close>

theorem one_record_per_item_counterexample:
  "length [JObj []] = 1
   \<and> fst (embed_images test_dumps mock_embedder [JObj []] [] 0) = None
   \<and> out_file (snd (embed_images test_dumps mock_embedder [JObj []] [] 0)) = jsonl test_dumps []"
  by code_simp

theorem one_record_per_located_item_witness:
  "fst (embed_images test_dumps mock_embedder sample_manifest ''old'' 0) = None
   \<and> (\<exists>vs. length vs = 3
        \<and> out_file (snd (embed_images test_dumps mock_embedder sample_manifest ''old'' 0))
            = jsonl test_dumps
                (map2 record_of [(0, ''a.jpg''), (2, ''missing.jpg''), (3, ''b.jpg'')] vs))"
proof -
  have h: "fst (embed_images test_dumps mock_embedder sample_manifest ''old'' 0) = None"
    by code_simp
  have k: "kept_items 0 sample_manifest = [(0, ''a.jpg''), (2, ''missing.jpg''), (3, ''b.jpg'')]"
    by code_simp
  from one_record_per_located_item [OF h] obtain vs where
    "length vs = length (kept_items 0 sample_manifest)"
    "out_file (snd (embed_images test_dumps mock_embedder sample_manifest ''old'' 0))
       = jsonl test_dumps (map2 record_of (kept_items 0 sample_manifest) vs)"
    by blast
  then have "length vs = 3
     \<and> out_file (snd (embed_images test_dumps mock_embedder sample_manifest ''old'' 0))
         = jsonl test_dumps
             (map2 record_of [(0, ''a.jpg''), (2, ''missing.jpg''), (3, ''b.jpg'')] vs)"
    by (simp add: k)
  then show ?thesis using h by blast
qed

lemma process_item_falsy:
  assumes "map_of kvs ''image_path'' = None
         \<or> map_of kvs ''image_path'' = Some JNull
         \<or> map_of kvs ''image_path'' = Some (JStr [])"
  shows "process_item dumps w idx (JObj kvs) st = (None, st)"
proof -
  from assms have "\<not> truthy (dict_get kvs ''image_path'')"
    by (auto simp: dict_get_def)
  then show ?thesis by (rule process_item_skip [OF refl])
qed

lemma record_of_fields:
  "record_of (i, p) v =
     JObj [(''id'', JStr (decimal i)),
           (''image_vector'', v),
           (''description'', JStr (fst (splitext (basename p))))]"
  by (simp add: record_of_def result_record_def)

text \<open>
  Claim C9. An item whose \<open>image_path\<close> is missing, null or the empty string is
  passed over: the state is unchanged, so no record is written, nothing is printed and
  the endpoint is not called. A run over the manifest of the single item \<open>{}\<close>
  therefore ends with fewer records than items. After a run that reaches its end the
  records are those of the items with a locator, each with the decimal string of its
  own manifest index as \<open>id\<close>; these ids are pairwise different.
\<close>

theorem items_without_path_are_skipped:
  "(map_of kvs ''image_path'' = None
      \<or> map_of kvs ''image_path'' = Some JNull
      \<or> map_of kvs ''image_path'' = Some (JStr [])
     \<longrightarrow> process_item dumps w idx (JObj kvs) st = (None, st))
   \<and> (fst (embed_images dumps w [JObj []] old c0) = None
        \<and> out_file (snd (embed_images dumps w [JObj []] old c0)) = jsonl dumps [])
   \<and> (fst (embed_images dumps w images old c0) = None \<longrightarrow>
        (\<exists>vs. length vs = length (kept_items 0 images)
           \<and> out_file (snd (embed_images dumps w images old c0))
               = jsonl dumps (map2 record_of (kept_items 0 images) vs))
        \<and> length (kept_items 0 images) \<le> length images
        \<and> list_all (\<lambda>(i, p). i < length images \<and> locator (images ! i) = Some p)
             (kept_items 0 images)
        \<and> distinct (map (\<lambda>(i, p). decimal i) (kept_items 0 images)))
   \<and> record_of (i, p) v =
       JObj [(''id'', JStr (decimal i)),
             (''image_vector'', v),
             (''description'', JStr (fst (splitext (basename p))))]"
proof (intro conjI impI)
  assume "map_of kvs ''image_path'' = None
      \<or> map_of kvs ''image_path'' = Some JNull
      \<or> map_of kvs ''image_path'' = Some (JStr [])"
  then show "process_item dumps w idx (JObj kvs) st = (None, st)"
    by (rule process_item_falsy)
next
  have "process_item dumps w 0 (JObj []) \<lparr>out_file = open_w old, printed = [], calls = c0\<rparr>
        = (None, \<lparr>out_file = open_w old, printed = [], calls = c0\<rparr>)"
    by (simp add: process_item_falsy)
  then have run: "embed_images dumps w [JObj []] old c0
        = (None, \<lparr>out_file = open_w old, printed = [], calls = c0\<rparr>)"
    by (simp add: embed_images_def)
  show "fst (embed_images dumps w [JObj []] old c0) = None"
    by (simp add: run)
  show "out_file (snd (embed_images dumps w [JObj []] old c0)) = jsonl dumps []"
    by (simp add: run open_w_def jsonl_Nil)
next
  assume "fst (embed_images dumps w images old c0) = None"
  then show "\<exists>vs. length vs = length (kept_items 0 images)
           \<and> out_file (snd (embed_images dumps w images old c0))
               = jsonl dumps (map2 record_of (kept_items 0 images) vs)"
    by (rule embed_images_completed)
next
  show "length (kept_items 0 images) \<le> length images"
    by (rule kept_items_length_le)
next
  show "list_all (\<lambda>(i, p). i < length images \<and> locator (images ! i) = Some p)
             (kept_items 0 images)"
    using kept_items_bounds [of _ _ 0 images] by (auto simp: list_all_iff)
next
  have "inj_on decimal (set (map fst (kept_items 0 images)))"
    by (rule inj_onI) (rule decimal_inj)
  then have "distinct (map decimal (map fst (kept_items 0 images)))"
    using kept_items_distinct [of 0 images] by (simp only: distinct_map)
  moreover have "(\<lambda>(i, p). decimal i) = decimal \<circ> (fst :: nat \<times> string \<Rightarrow> nat)"
    by (simp add: fun_eq_iff)
  ultimately show "distinct (map (\<lambda>(i, p). decimal i) (kept_items 0 images))"
    by (simp only: map_map)
next
  show "record_of (i, p) v =
       JObj [(''id'', JStr (decimal i)),
             (''image_vector'', v),
             (''description'', JStr (fst (splitext (basename p))))]"
    by (rule record_of_fields)
qed

theorem items_without_path_are_skipped_witness:
  "map_of [(''image_path'', JStr [])] ''image_path'' = Some (JStr [])
   \<and> process_item test_dumps mock_embedder 1 (JObj [(''image_path'', JStr [])])
        \<lparr>out_file = ''x'', printed = [], calls = 4\<rparr>
      = (None, \<lparr>out_file = ''x'', printed = [], calls = 4\<rparr>)
   \<and> fst (embed_images test_dumps mock_embedder sample_manifest ''old'' 0) = None
   \<and> length (kept_items 0 sample_manifest) < length sample_manifest
   \<and> map (\<lambda>(i, p). decimal i) (kept_items 0 sample_manifest) = [''0'', ''2'', ''3'']"
proof -
  have h: "fst (embed_images test_dumps mock_embedder sample_manifest ''old'' 0) = None"
    by code_simp
  have k: "kept_items 0 sample_manifest = [(0, ''a.jpg''), (2, ''missing.jpg''), (3, ''b.jpg'')]"
    by code_simp
  have d: "map decimal [0, 2, 3] = [''0'', ''2'', ''3'']"
    by code_simp
  have n: "length sample_manifest = 4"
    by (simp add: sample_manifest_def)
  have m: "map_of [(''image_path'', JStr [])] ''image_path'' = Some (JStr [])"
    by simp
  show ?thesis
    using items_without_path_are_skipped
            [of "[(''image_path'', JStr [])]" test_dumps mock_embedder 1
                "\<lparr>out_file = ''x'', printed = [], calls = 4\<rparr>" "''old''" 0 sample_manifest]
      h m d
    by (simp add: k n)
qed

text \<open>
  Claim C10. The cell opens the store for writing, which truncates it: the result of a
  run does not depend on what the store held, an empty manifest leaves the store empty,
  the store holds records of this run only (those of the items with a locator when the
  run reaches its end), and within the run each round only appends, at most one line.
\<close>

theorem store_truncated_at_batch_start:
  "embed_images dumps w images old c0 = embed_images dumps w images [] c0
   \<and> out_file (snd (embed_images dumps w [] old c0)) = []
   \<and> (\<exists>rs. out_file (snd (embed_images dumps w images old c0)) = jsonl dumps rs)
   \<and> (fst (embed_images dumps w images old c0) = None \<longrightarrow>
        (\<exists>vs. length vs = length (kept_items 0 images)
           \<and> out_file (snd (embed_images dumps w images old c0))
               = jsonl dumps (map2 record_of (kept_items 0 images) vs)))
   \<and> (\<exists>rs. length rs \<le> 1
         \<and> out_file (snd (process_item dumps w idx x st)) = out_file st @ jsonl dumps rs)"
proof (intro conjI impI)
  show "embed_images dumps w images old c0 = embed_images dumps w images [] c0"
    by (simp add: embed_images_def open_w_def)
  show "out_file (snd (embed_images dumps w [] old c0)) = []"
    by (simp add: embed_images_def open_w_def)
  show "\<exists>rs. out_file (snd (embed_images dumps w images old c0)) = jsonl dumps rs"
    using batch_loop_appends [of dumps w 0 images "\<lparr>out_file = open_w old, printed = [], calls = c0\<rparr>"]
    by (simp add: embed_images_def open_w_def)
  show "\<exists>rs. length rs \<le> 1
         \<and> out_file (snd (process_item dumps w idx x st)) = out_file st @ jsonl dumps rs"
    by (rule process_item_appends)
next
  assume "fst (embed_images dumps w images old c0) = None"
  then show "\<exists>vs. length vs = length (kept_items 0 images)
           \<and> out_file (snd (embed_images dumps w images old c0))
               = jsonl dumps (map2 record_of (kept_items 0 images) vs)"
    by (rule embed_images_completed)
qed

theorem store_truncated_at_batch_start_witness:
  "embed_images test_dumps mock_embedder sample_manifest ''a previous run'' 0
     = embed_images test_dumps mock_embedder sample_manifest [] 0
   \<and> fst (embed_images test_dumps mock_embedder sample_manifest ''a previous run'' 0) = None
   \<and> (\<exists>vs. length vs = 3
        \<and> out_file (snd (embed_images test_dumps mock_embedder sample_manifest ''a previous run'' 0))
            = jsonl test_dumps
                (map2 record_of [(0, ''a.jpg''), (2, ''missing.jpg''), (3, ''b.jpg'')] vs))"
proof -
  have h: "fst (embed_images test_dumps mock_embedder sample_manifest ''a previous run'' 0) = None"
    by code_simp
  have k: "kept_items 0 sample_manifest = [(0, ''a.jpg''), (2, ''missing.jpg''), (3, ''b.jpg'')]"
    by code_simp
  note t = store_truncated_at_batch_start
             [of test_dumps mock_embedder sample_manifest "''a previous run''" 0]
  from t have e: "embed_images test_dumps mock_embedder sample_manifest ''a previous run'' 0
     = embed_images test_dumps mock_embedder sample_manifest [] 0"
    by blast
  from t h obtain vs where
    "length vs = length (kept_items 0 sample_manifest)"
    "out_file (snd (embed_images test_dumps mock_embedder sample_manifest ''a previous run'' 0))
       = jsonl test_dumps (map2 record_of (kept_items 0 sample_manifest) vs)"
    by blast
  then have "length vs = 3
     \<and> out_file (snd (embed_images test_dumps mock_embedder sample_manifest ''a previous run'' 0))
         = jsonl test_dumps
             (map2 record_of [(0, ''a.jpg''), (2, ''missing.jpg''), (3, ''b.jpg'')] vs)"
    by (simp add: k)
  then show ?thesis using h e by blast
qed

lemma batch_loop_append:
  "batch_loop dumps w idx (xs @ ys) st =
     (case batch_loop dumps w idx xs st of
        (Some e, st') \<Rightarrow> (Some e, st')
      | (None, st') \<Rightarrow> batch_loop dumps w (idx + length xs) ys st')"
  by (induction xs arbitrary: idx st) (auto split: prod.splits option.splits)

lemma batch_loop_all_located:
  "\<forall>x\<in>set xs. locator x \<noteq> None \<Longrightarrow> fst (batch_loop dumps w idx xs st) = None"
proof (induction xs arbitrary: idx st)
  case Nil
  then show ?case by simp
next
  case (Cons x xs)
  then obtain p where "locator x = Some p" by auto
  from process_item_locator [OF this, of dumps w idx st] Cons show ?case by simp
qed

lemma process_item_printed:
  "\<exists>ps. printed (snd (process_item dumps w idx x st)) = printed st @ ps"
  by (auto simp: process_item_def Let_def split: json.splits prod.splits sum.splits)

lemma batch_loop_printed:
  "\<exists>ps. printed (snd (batch_loop dumps w idx xs st)) = printed st @ ps"
proof (induction xs arbitrary: idx st)
  case Nil
  show ?case by simp
next
  case (Cons x xs)
  obtain r st1 where step: "process_item dumps w idx x st = (r, st1)"
    by (cases "process_item dumps w idx x st")
  obtain ps1 where ps1: "printed st1 = printed st @ ps1"
    using process_item_printed [of dumps w idx x st] step by auto
  show ?case
  proof (cases r)
    case (Some e)
    then show ?thesis using step ps1 by simp
  next
    case None
    obtain ps2 where "printed (snd (batch_loop dumps w (Suc idx) xs st1)) = printed st1 @ ps2"
      using Cons.IH by blast
    then show ?thesis using step None ps1 by simp
  qed
qed

lemma kept_items_length_all:
  assumes "\<forall>x\<in>set xs. locator x \<noteq> None"
  shows "length (kept_items idx xs) = length xs"
proof -
  have "length (map fst (kept_items idx xs)) = length [idx ..< idx + length xs]"
    by (simp only: kept_items_all [OF assms])
  then show ?thesis by simp
qed

text \<open>
  Claim C2, amended. Failure isolation. Let the run reach an item that has a locator
  (the items \<open>pre\<close> before it are done without an exception leaving the loop), and let
  the embedding call for it raise \<open>e\<close>, whatever \<open>e\<close> is. Then the record of the
  item, with the decimal index as \<open>id\<close>, a null \<open>image_vector\<close> and the stem of the
  base name as \<open>description\<close>, is appended to the store, the index of the item and
  \<open>e\<close> are printed, and the loop goes on with the items \<open>post\<close> after it. When all
  the other items have a locator too, the run reaches its end, the store holds as many
  records as the manifest has items, the record at the index of the item is the one
  above, and the report names that index.
\<close>

theorem failure_isolation:
  assumes reach: "fst (embed_images dumps w pre old c0) = None"
    and loc: "locator x = Some p"
    and fail: "vectorize_image w (path_join apples_image_directory p)
                 (calls (snd (embed_images dumps w pre old c0))) = (Inl e, c')"
  shows "embed_images dumps w (pre @ x # post) old c0 =
           batch_loop dumps w (Suc (length pre)) post
             \<lparr>out_file = out_file (snd (embed_images dumps w pre old c0))
                 @ dumps (JObj [(''id'', JStr (decimal (length pre))),
                                (''image_vector'', JNull),
                                (''description'', JStr (fst (splitext (basename p))))])
                 @ [CHR 0x0A],
              printed = printed (snd (embed_images dumps w pre old c0)) @ [(length pre, e)],
              calls = c'\<rparr>
       \<and> ((\<forall>y\<in>set (pre @ post). locator y \<noteq> None) \<longrightarrow>
            fst (embed_images dumps w (pre @ x # post) old c0) = None
            \<and> (\<exists>rs. length rs = length (pre @ x # post)
                  \<and> out_file (snd (embed_images dumps w (pre @ x # post) old c0)) = jsonl dumps rs
                  \<and> rs ! length pre
                      = JObj [(''id'', JStr (decimal (length pre))),
                              (''image_vector'', JNull),
                              (''description'', JStr (fst (splitext (basename p))))])
            \<and> (length pre, e) \<in> set (printed (snd (embed_images dumps w (pre @ x # post) old c0))))"
proof -
  define st0 where "st0 = \<lparr>out_file = open_w old, printed = [], calls = c0\<rparr>"
  define S where "S = snd (embed_images dumps w pre old c0)"
  define r where "r = JObj [(''id'', JStr (decimal (length pre))),
                            (''image_vector'', JNull),
                            (''description'', JStr (fst (splitext (basename p))))]"
  define S' where "S' = \<lparr>out_file = out_file S @ dumps r @ [CHR 0x0A],
                          printed = printed S @ [(length pre, e)], calls = c'\<rparr>"
  have pre: "batch_loop dumps w 0 pre st0 = (None, S)"
    using reach by (simp add: S_def st0_def embed_images_def prod_eq_iff)
  have step: "process_item dumps w (length pre) x S = (None, S')"
    using process_item_locator [OF loc, of dumps w "length pre" S] fail
    by (simp add: S'_def r_def S_def record_of_def result_record_def)
  have run: "embed_images dumps w (pre @ x # post) old c0
             = batch_loop dumps w (Suc (length pre)) post S'"
    by (simp add: embed_images_def batch_loop_append pre [unfolded st0_def] step)
  have part2: "fst (embed_images dumps w (pre @ x # post) old c0) = None
            \<and> (\<exists>rs. length rs = length (pre @ x # post)
                  \<and> out_file (snd (embed_images dumps w (pre @ x # post) old c0)) = jsonl dumps rs
                  \<and> rs ! length pre = r)
            \<and> (length pre, e) \<in> set (printed (snd (embed_images dumps w (pre @ x # post) old c0)))"
    if all: "\<forall>y\<in>set (pre @ post). locator y \<noteq> None"
  proof -
    from all have all_pre: "\<forall>y\<in>set pre. locator y \<noteq> None"
      and all_post: "\<forall>y\<in>set post. locator y \<noteq> None" by auto
    obtain F where F: "batch_loop dumps w (Suc (length pre)) post S' = (None, F)"
      using batch_loop_all_located [OF all_post, of dumps w "Suc (length pre)" S']
      by (cases "batch_loop dumps w (Suc (length pre)) post S'") simp
    from batch_loop_completed [OF pre] obtain vs1 where vs1:
      "length vs1 = length (kept_items 0 pre)"
      "out_file S = out_file st0 @ jsonl dumps (map2 record_of (kept_items 0 pre) vs1)"
      by blast
    from batch_loop_completed [OF F] obtain vs2 where vs2:
      "length vs2 = length (kept_items (Suc (length pre)) post)"
      "out_file F = out_file S' @ jsonl dumps (map2 record_of (kept_items (Suc (length pre)) post) vs2)"
      by blast
    define rs1 where "rs1 = map2 record_of (kept_items 0 pre) vs1"
    define rs2 where "rs2 = map2 record_of (kept_items (Suc (length pre)) post) vs2"
    have l1: "length rs1 = length pre"
      using vs1(1) kept_items_length_all [OF all_pre, of 0] by (simp add: rs1_def)
    have l2: "length rs2 = length post"
      using vs2(1) kept_items_length_all [OF all_post, of "Suc (length pre)"] by (simp add: rs2_def)
    have content: "out_file F = jsonl dumps (rs1 @ r # rs2)"
      using vs1(2) vs2(2)
      by (simp add: rs1_def rs2_def S'_def st0_def open_w_def jsonl_append jsonl_Cons)
    have nth: "(rs1 @ r # rs2) ! length pre = r"
      using l1 by (simp add: nth_append)
    have len: "length (rs1 @ r # rs2) = length (pre @ x # post)"
      using l1 l2 by simp
    obtain ps where "printed F = printed S' @ ps"
      using batch_loop_printed [of dumps w "Suc (length pre)" post S'] F by auto
    then have pr: "(length pre, e) \<in> set (printed F)"
      by (simp add: S'_def)
    have "\<exists>rs. length rs = length (pre @ x # post)
              \<and> out_file F = jsonl dumps rs \<and> rs ! length pre = r"
      using content nth len by blast
    then show ?thesis
      using run F pr by simp
  qed
  show ?thesis
    using run part2 by (simp add: S'_def r_def S_def)
qed

text \<open>
  The claim as stated fails: in a manifest of 5 items whose item 3 has no
  \<open>image_path\<close>, item 2 fails and the run ends with 4 records in the store, not 5.
\<close>

theorem failure_isolation_counterexample:
  "length five_with_gap = 5
   \<and> locator (five_with_gap ! 2) = Some ''c.jpg''
   \<and> vectorize_image mock_embedder (path_join apples_image_directory ''c.jpg'') 2
       = (Inl (RetryError (HTTPError 400)), 17)
   \<and> embed_images test_dumps mock_embedder five_with_gap ''old'' 0
       = (None,
          \<lparr>out_file = jsonl test_dumps
                         [result_record 0 (JArr [JInt 1, JInt 0]) ''a'',
                          result_record 1 (JArr [JInt 0, JInt 1]) ''b'',
                          result_record 2 JNull ''c'',
                          result_record 4 (JArr [JInt 0, JInt 1]) ''b''],
           printed = [(2, RetryError (HTTPError 400))],
           calls = 18\<rparr>)
   \<and> length (filter (\<lambda>ch. ch = CHR 0x0A)
               (out_file (snd (embed_images test_dumps mock_embedder five_with_gap ''old'' 0))))
       = 4"
  by code_simp

theorem failure_isolation_witness:
  "fst (embed_images test_dumps mock_embedder [item ''a.jpg'', item ''b.jpg''] ''old'' 0) = None
   \<and> locator (item ''c.jpg'') = Some ''c.jpg''
   \<and> vectorize_image mock_embedder (path_join apples_image_directory ''c.jpg'')
        (calls (snd (embed_images test_dumps mock_embedder [item ''a.jpg'', item ''b.jpg''] ''old'' 0)))
      = (Inl (RetryError (HTTPError 400)), 17)
   \<and> fst (embed_images test_dumps mock_embedder five_apples ''old'' 0) = None
   \<and> (\<exists>rs. length rs = 5
        \<and> out_file (snd (embed_images test_dumps mock_embedder five_apples ''old'' 0))
            = jsonl test_dumps rs
        \<and> rs ! 2 = JObj [(''id'', JStr ''2''), (''image_vector'', JNull), (''description'', JStr ''c'')])
   \<and> (2, RetryError (HTTPError 400))
        \<in> set (printed (snd (embed_images test_dumps mock_embedder five_apples ''old'' 0)))"
proof -
  have h1: "fst (embed_images test_dumps mock_embedder [item ''a.jpg'', item ''b.jpg''] ''old'' 0) = None"
    by code_simp
  have h2: "locator (item ''c.jpg'') = Some ''c.jpg''"
    by code_simp
  have h3: "vectorize_image mock_embedder (path_join apples_image_directory ''c.jpg'')
        (calls (snd (embed_images test_dumps mock_embedder [item ''a.jpg'', item ''b.jpg''] ''old'' 0)))
      = (Inl (RetryError (HTTPError 400)), 17)"
    by code_simp
  have h4: "\<forall>y\<in>set ([item ''a.jpg'', item ''b.jpg''] @ [item ''a.jpg'', item ''b.jpg'']). locator y \<noteq> None"
    by (simp add: item_def locator_def dict_get_def)
  have five: "[item ''a.jpg'', item ''b.jpg''] @ item ''c.jpg'' # [item ''a.jpg'', item ''b.jpg''] = five_apples"
    by (simp add: five_apples_def)
  have stem: "fst (splitext (basename ''c.jpg'')) = ''c''"
    by code_simp
  have two: "decimal (length [item ''a.jpg'', item ''b.jpg'']) = ''2''"
    by code_simp
  note t = failure_isolation [OF h1 h2 h3, of "[item ''a.jpg'', item ''b.jpg'']", unfolded five stem two]
  from t h4 have a: "fst (embed_images test_dumps mock_embedder five_apples ''old'' 0) = None"
    and c: "(length [item ''a.jpg'', item ''b.jpg''], RetryError (HTTPError 400))
        \<in> set (printed (snd (embed_images test_dumps mock_embedder five_apples ''old'' 0)))"
    by blast+
  from t h4 obtain rs where
    "length rs = length five_apples"
    "out_file (snd (embed_images test_dumps mock_embedder five_apples ''old'' 0)) = jsonl test_dumps rs"
    "rs ! length [item ''a.jpg'', item ''b.jpg'']
       = JObj [(''id'', JStr ''2''), (''image_vector'', JNull), (''description'', JStr ''c'')]"
    by blast
  then have b: "length rs = 5
        \<and> out_file (snd (embed_images test_dumps mock_embedder five_apples ''old'' 0))
            = jsonl test_dumps rs
        \<and> rs ! 2 = JObj [(''id'', JStr ''2''), (''image_vector'', JNull), (''description'', JStr ''c'')]"
    by (simp add: five_apples_def eval_nat_numeral)
  from c have c': "(2, RetryError (HTTPError 400))
        \<in> set (printed (snd (embed_images test_dumps mock_embedder five_apples ''old'' 0)))"
    by (simp add: numeral_2_eq_2)
  show ?thesis using h1 h2 h3 a b c' by blast
qed

section \<open>Properties of the loader and the publisher, and the end-to-end example\<close>

lemma stem_of_path:
  assumes "CHR ''/'' \<notin> set s" "CHR ''/'' \<notin> set e" "CHR ''.'' \<notin> set e"
    and "\<exists>c\<in>set s. c \<noteq> CHR ''.''"
  shows "fst (splitext (basename (d @ ''/'' @ s @ ''.'' @ e))) = s"
    and "fst (splitext (basename (s @ ''.'' @ e))) = s"
proof -
  have f: "CHR ''/'' \<notin> set (s @ ''.'' @ e)" using assms(1,2) by simp
  show "fst (splitext (basename (d @ ''/'' @ s @ ''.'' @ e))) = s"
    by (simp only: basename_in_directory [OF f] splitext_extension [OF assms] fst_conv)
  show "fst (splitext (basename (s @ ''.'' @ e))) = s"
    by (simp only: basename_plain [OF f] splitext_extension [OF assms] fst_conv)
qed

lemma locator_item: "p \<noteq> [] \<Longrightarrow> locator (JObj [(''image_path'', JStr p)]) = Some p"
  by (simp add: locator_def dict_get_def)

lemma stems_ab:
  "fst (splitext (basename ''a.jpg'')) = ''a''" "fst (splitext (basename ''b.jpg'')) = ''b''"
  by code_simp+

lemma decimals_01: "decimal 0 = ''0''" "decimal (Suc 0) = ''1''"
  by code_simp+

lemma json_dumps_example:
  \<open>json_dumps float_repr (JObj [(''id'', JStr ''0''), (''image_vector'', JArr [JInt 1, JInt 0]),
                                  (''description'', JStr ''a'')])
     = ''{"id": "0", "image_vector": [1, 0], "description": "a"}''\<close>
  \<open>json_dumps float_repr (JObj [(''id'', JStr ''1''), (''image_vector'', JArr [JInt 0, JInt 1]),
                                  (''description'', JStr ''b'')])
     = ''{"id": "1", "image_vector": [0, 1], "description": "b"}''\<close>
  by code_simp+

text \<open>
  Claim C6, amended. End to end: on the manifest
  \<open>[{image_path: a.jpg}, {image_path: b.jpg}]\<close>, with an embedder that returns
  \<open>[1, 0]\<close> for the first file and \<open>[0, 1]\<close> for the second, the store holds exactly
  the two lines that \<open>json.dumps\<close> writes for the two records, with a space after
  each comma and each colon. In general the records of a run that reaches its end are
  those of the items with a locator; the \<open>id\<close> of a record is the decimal string of
  the manifest index (digits only, and reading it back gives the index), and its
  \<open>description\<close> is the base name of the path without its extension: for a path
  \<open>d/s.e\<close> or \<open>s.e\<close>, where \<open>s\<close> and \<open>e\<close> have no \<open>/\<close>, \<open>e\<close> has no dot and
  \<open>s\<close> is not made of dots only, it is \<open>s\<close>.
\<close>

theorem end_to_end_record_shape:
  \<open>(vectorize_image w (path_join apples_image_directory ''a.jpg'') c0
        = (Inr (JArr [JInt 1, JInt 0]), c1)
      \<and> vectorize_image w (path_join apples_image_directory ''b.jpg'') c1
        = (Inr (JArr [JInt 0, JInt 1]), c2)
     \<longrightarrow> embed_images (json_dumps float_repr) w
           [JObj [(''image_path'', JStr ''a.jpg'')], JObj [(''image_path'', JStr ''b.jpg'')]]
           old c0
         = (None,
            \<lparr>out_file =
               ''{"id": "0", "image_vector": [1, 0], "description": "a"}'' @ [CHR 0x0A]
               @ ''{"id": "1", "image_vector": [0, 1], "description": "b"}'' @ [CHR 0x0A],
             printed = [], calls = c2\<rparr>))
   \<and> (fst (embed_images dumps w images old c0) = None \<longrightarrow>
        (\<exists>vs. length vs = length (kept_items 0 images)
           \<and> out_file (snd (embed_images dumps w images old c0))
               = jsonl dumps (map2 record_of (kept_items 0 images) vs)))
   \<and> record_of (i, p) v =
       JObj [(''id'', JStr (decimal i)),
             (''image_vector'', v),
             (''description'', JStr (fst (splitext (basename p))))]
   \<and> read_decimal (decimal i) = i
   \<and> set (decimal i) \<subseteq> set ''0123456789''
   \<and> (CHR ''/'' \<notin> set s \<and> CHR ''/'' \<notin> set e \<and> CHR ''.'' \<notin> set e \<and> (\<exists>c\<in>set s. c \<noteq> CHR ''.'')
       \<longrightarrow> fst (splitext (basename (d @ ''/'' @ s @ ''.'' @ e))) = s
         \<and> fst (splitext (basename (s @ ''.'' @ e))) = s)\<close>
proof (intro conjI impI)
  assume a: "vectorize_image w (path_join apples_image_directory ''a.jpg'') c0
        = (Inr (JArr [JInt 1, JInt 0]), c1)
      \<and> vectorize_image w (path_join apples_image_directory ''b.jpg'') c1
        = (Inr (JArr [JInt 0, JInt 1]), c2)"
  have la: "locator (JObj [(''image_path'', JStr ''a.jpg'')]) = Some ''a.jpg''"
    and lb: "locator (JObj [(''image_path'', JStr ''b.jpg'')]) = Some ''b.jpg''"
    by (simp_all add: locator_item)
  have "embed_images (json_dumps float_repr) w
           [JObj [(''image_path'', JStr ''a.jpg'')], JObj [(''image_path'', JStr ''b.jpg'')]]
           old c0
         = (None,
            \<lparr>out_file =
               json_dumps float_repr
                 (JObj [(''id'', JStr ''0''), (''image_vector'', JArr [JInt 1, JInt 0]),
                        (''description'', JStr ''a'')]) @ [CHR 0x0A]
               @ json_dumps float_repr
                 (JObj [(''id'', JStr ''1''), (''image_vector'', JArr [JInt 0, JInt 1]),
                        (''description'', JStr ''b'')]) @ [CHR 0x0A],
             printed = [], calls = c2\<rparr>)"
    using a
    by (simp add: embed_images_def open_w_def process_item_locator [OF la]
        process_item_locator [OF lb] record_of_def result_record_def stems_ab decimals_01
        del: json_dumps.simps)
  then show \<open>embed_images (json_dumps float_repr) w
           [JObj [(''image_path'', JStr ''a.jpg'')], JObj [(''image_path'', JStr ''b.jpg'')]]
           old c0
         = (None,
            \<lparr>out_file =
               ''{"id": "0", "image_vector": [1, 0], "description": "a"}'' @ [CHR 0x0A]
               @ ''{"id": "1", "image_vector": [0, 1], "description": "b"}'' @ [CHR 0x0A],
             printed = [], calls = c2\<rparr>)\<close>
    by (simp only: json_dumps_example)
next
  assume "fst (embed_images dumps w images old c0) = None"
  then show "\<exists>vs. length vs = length (kept_items 0 images)
           \<and> out_file (snd (embed_images dumps w images old c0))
               = jsonl dumps (map2 record_of (kept_items 0 images) vs)"
    by (rule embed_images_completed)
next
  show "record_of (i, p) v =
       JObj [(''id'', JStr (decimal i)),
             (''image_vector'', v),
             (''description'', JStr (fst (splitext (basename p))))]"
    by (rule record_of_fields)
  show "read_decimal (decimal i) = i"
    by (rule read_decimal_decimal)
  show "set (decimal i) \<subseteq> set ''0123456789''"
    using decimal_digits by blast
next
  assume "CHR ''/'' \<notin> set s \<and> CHR ''/'' \<notin> set e \<and> CHR ''.'' \<notin> set e \<and> (\<exists>c\<in>set s. c \<noteq> CHR ''.'')"
  then show "fst (splitext (basename (d @ ''/'' @ s @ ''.'' @ e))) = s"
    using stem_of_path(1) by blast
next
  assume "CHR ''/'' \<notin> set s \<and> CHR ''/'' \<notin> set e \<and> CHR ''.'' \<notin> set e \<and> (\<exists>c\<in>set s. c \<noteq> CHR ''.'')"
  then show "fst (splitext (basename (s @ ''.'' @ e))) = s"
    using stem_of_path(2) by blast
qed

text \<open>
  The claim as stated fails: the store does not hold the two lines in the compact
  form, without the spaces.
\<close>

theorem compact_store_lines_counterexample:
  \<open>vectorize_image mock_embedder (path_join apples_image_directory ''a.jpg'') 0
      = (Inr (JArr [JInt 1, JInt 0]), 1)
   \<and> vectorize_image mock_embedder (path_join apples_image_directory ''b.jpg'') 1
      = (Inr (JArr [JInt 0, JInt 1]), 2)
   \<and> out_file (snd (embed_images (json_dumps no_floats) mock_embedder
                      [JObj [(''image_path'', JStr ''a.jpg'')],
                       JObj [(''image_path'', JStr ''b.jpg'')]] ''old'' 0))
      \<noteq> ''{"id":"0","image_vector":[1,0],"description":"a"}'' @ [CHR 0x0A]
        @ ''{"id":"1","image_vector":[0,1],"description":"b"}'' @ [CHR 0x0A]\<close>
  by code_simp

theorem end_to_end_record_shape_witness:
  \<open>vectorize_image mock_embedder (path_join apples_image_directory ''a.jpg'') 0
      = (Inr (JArr [JInt 1, JInt 0]), 1)
   \<and> vectorize_image mock_embedder (path_join apples_image_directory ''b.jpg'') 1
      = (Inr (JArr [JInt 0, JInt 1]), 2)
   \<and> embed_images (json_dumps no_floats) mock_embedder
        [JObj [(''image_path'', JStr ''a.jpg'')], JObj [(''image_path'', JStr ''b.jpg'')]] ''old'' 0
      = (None,
         \<lparr>out_file =
            ''{"id": "0", "image_vector": [1, 0], "description": "a"}'' @ [CHR 0x0A]
            @ ''{"id": "1", "image_vector": [0, 1], "description": "b"}'' @ [CHR 0x0A],
          printed = [], calls = 2\<rparr>)
   \<and> fst (splitext (basename (''photos'' @ ''/'' @ ''red.apple'' @ ''.'' @ ''jpeg''))) = ''red.apple''\<close>
proof -
  have h: "vectorize_image mock_embedder (path_join apples_image_directory ''a.jpg'') 0
        = (Inr (JArr [JInt 1, JInt 0]), 1)
      \<and> vectorize_image mock_embedder (path_join apples_image_directory ''b.jpg'') 1
        = (Inr (JArr [JInt 0, JInt 1]), 2)"
    by code_simp
  have p: "CHR ''/'' \<notin> set ''red.apple'' \<and> CHR ''/'' \<notin> set ''jpeg'' \<and> CHR ''.'' \<notin> set ''jpeg''
           \<and> (\<exists>c\<in>set ''red.apple''. c \<noteq> CHR ''.'')"
    by simp
  note t = end_to_end_record_shape
             [of mock_embedder 0 1 2 no_floats "''old''" _ _ _ _ _ "''red.apple''" "''jpeg''" "''photos''"]
  from t h have run: \<open>embed_images (json_dumps no_floats) mock_embedder
        [JObj [(''image_path'', JStr ''a.jpg'')], JObj [(''image_path'', JStr ''b.jpg'')]] ''old'' 0
      = (None,
         \<lparr>out_file =
            ''{"id": "0", "image_vector": [1, 0], "description": "a"}'' @ [CHR 0x0A]
            @ ''{"id": "1", "image_vector": [0, 1], "description": "b"}'' @ [CHR 0x0A],
          printed = [], calls = 2\<rparr>)\<close>
    by blast
  from t p have stem: "fst (splitext (basename (''photos'' @ ''/'' @ ''red.apple'' @ ''.'' @ ''jpeg''))) = ''red.apple''"
    by blast
  show ?thesis
    using h run stem by blast
qed

lemma load_loop_malformed:
  assumes "\<forall>l\<in>set pre. loads (strip l) \<noteq> None" "loads (strip bad) = None"
  shows "load_loop loads (pre @ bad # post) data = Inl JSONDecodeError"
  using assms by (induction pre arbitrary: data) auto

lemma load_loop_all:
  "load_loop loads ls data = Inr out \<Longrightarrow> map Some out = map Some data @ map (loads \<circ> strip) ls"
  by (induction ls arbitrary: data) (auto split: option.splits)

text \<open>
  Claim C7. When the lines before a line of the store all parse and that line does
  not, the cell raises the parser's error: no record is returned and nothing is handed
  to the index, whatever the later lines are.
\<close>

theorem load_aborts_at_first_malformed_line:
  assumes "file_lines content = pre @ bad # post"
    and "\<forall>l\<in>set pre. loads (strip l) \<noteq> None"
    and "loads (strip bad) = None"
  shows "push_to_index loads upload_documents content = (Inl JSONDecodeError, [])
       \<and> load_loop loads (pre @ bad # rest) [] = Inl JSONDecodeError"
  using assms load_loop_malformed [OF assms(2,3)]
  by (simp add: push_to_index_def)

theorem load_aborts_at_first_malformed_line_witness:
  "file_lines corrupt_store
     = [test_dumps (result_record 0 JNull ''a'') @ [CHR 0x0A]]
       @ (''not json'' @ [CHR 0x0A])
       # [test_dumps (result_record 1 (JArr [JInt 0, JInt 1]) ''b'') @ [CHR 0x0A]]
   \<and> test_loads (strip (test_dumps (result_record 0 JNull ''a'') @ [CHR 0x0A]))
       = Some (result_record 0 JNull ''a'')
   \<and> test_loads (strip (''not json'' @ [CHR 0x0A])) = None
   \<and> test_loads (strip (test_dumps (result_record 1 (JArr [JInt 0, JInt 1]) ''b'') @ [CHR 0x0A]))
       = Some (result_record 1 (JArr [JInt 0, JInt 1]) ''b'')
   \<and> push_to_index test_loads test_upload corrupt_store = (Inl JSONDecodeError, [])"
proof -
  have h1: "file_lines corrupt_store
     = [test_dumps (result_record 0 JNull ''a'') @ [CHR 0x0A]]
       @ (''not json'' @ [CHR 0x0A])
       # [test_dumps (result_record 1 (JArr [JInt 0, JInt 1]) ''b'') @ [CHR 0x0A]]"
    by code_simp
  have l0: "test_loads (strip (test_dumps (result_record 0 JNull ''a'') @ [CHR 0x0A]))
       = Some (result_record 0 JNull ''a'')"
    by code_simp
  have h2: "\<forall>l\<in>set [test_dumps (result_record 0 JNull ''a'') @ [CHR 0x0A]]. test_loads (strip l) \<noteq> None"
    using l0 by simp
  have h3: "test_loads (strip (''not json'' @ [CHR 0x0A])) = None"
    by code_simp
  have l1: "test_loads (strip (test_dumps (result_record 1 (JArr [JInt 0, JInt 1]) ''b'') @ [CHR 0x0A]))
       = Some (result_record 1 (JArr [JInt 0, JInt 1]) ''b'')"
    by code_simp
  from load_aborts_at_first_malformed_line [OF h1 h2 h3, of test_upload]
  have "push_to_index test_loads test_upload corrupt_store = (Inl JSONDecodeError, [])"
    by blast
  with h1 l0 h3 l1 show ?thesis by blast
qed

text \<open>
  Claim C8. When every line of the store parses, the documents handed to
  \<open>upload_documents\<close>, in a single call, are the records of all the lines, in order:
  as many documents as lines, and the record of every line is among them, whatever its
  \<open>image_vector\<close> is, null included. Nothing is filtered out.
\<close>

theorem all_loaded_records_are_published:
  assumes "load_loop loads (file_lines content) [] = Inr data"
  shows "push_to_index loads upload_documents content = (upload_documents data, [data])
       \<and> map Some data = map (loads \<circ> strip) (file_lines content)
       \<and> length data = length (file_lines content)
       \<and> (\<forall>l\<in>set (file_lines content). \<forall>r. loads (strip l) = Some r \<longrightarrow>
             r \<in> set (concat (snd (push_to_index loads upload_documents content))))"
proof -
  have run: "push_to_index loads upload_documents content = (upload_documents data, [data])"
    using assms by (simp add: push_to_index_def)
  have all: "map Some data = map (loads \<circ> strip) (file_lines content)"
    using load_loop_all [OF assms] by simp
  then have len: "length data = length (file_lines content)"
    by (metis length_map)
  have mem: "r \<in> set data" if "l \<in> set (file_lines content)" "loads (strip l) = Some r" for l r
  proof -
    from that have "Some r \<in> set (map (loads \<circ> strip) (file_lines content))"
      by (auto simp: image_iff intro!: bexI [of _ l])
    then have "Some r \<in> set (map Some data)" by (simp only: all)
    then show ?thesis by auto
  qed
  show ?thesis using run all len mem by simp
qed

theorem all_loaded_records_are_published_witness:
  "load_loop test_loads (file_lines two_records) []
     = Inr [result_record 0 JNull ''a'', result_record 1 (JArr [JInt 0, JInt 1]) ''b'']
   \<and> push_to_index test_loads test_upload two_records
     = (Inr [([], 201), ([], 201)],
        [[result_record 0 JNull ''a'', result_record 1 (JArr [JInt 0, JInt 1]) ''b'']])
   \<and> dict_get [(''id'', JStr ''0''), (''image_vector'', JNull), (''description'', JStr ''a'')]
        ''image_vector'' = JNull"
proof -
  have h: "load_loop test_loads (file_lines two_records) []
     = Inr [result_record 0 JNull ''a'', result_record 1 (JArr [JInt 0, JInt 1]) ''b'']"
    by code_simp
  from all_loaded_records_are_published [OF h, of test_upload]
  have "push_to_index test_loads test_upload two_records
     = (Inr [([], 201), ([], 201)],
        [[result_record 0 JNull ''a'', result_record 1 (JArr [JInt 0, JInt 1]) ''b'']])"
    by (simp add: test_upload_def)
  with h show ?thesis by (simp add: dict_get_def)
qed

end
